theory Spec2Isabelle
  imports Main
begin


section \<open>Data model (types.ts, constants.ts)\<close>

text \<open>
  The records follow \<^verbatim>\<open>src/types.ts\<close>. A field name that another record or a HOL
  constant already uses carries a suffix or a prefix: \<open>id'\<close> is the source's \<^verbatim>\<open>id\<close>.
  An optional property (\<^verbatim>\<open>processedUrl?: string\<close>) is an \<open>option\<close>. The numbers of a
  face analysis are payload that the application never computes on; they are kept as
  integers.
\<close>

record Lighting =
  direction :: string
  intensity :: int
  color_temperature :: string

record FaceAnalysisResult =
  face_box :: "int list"
  landmarks :: "(string \<times> int list) list"
  skin_tone :: string
  undertone :: string
  lighting :: Lighting
  face_scale_ratio :: int
  confidence :: int

datatype scale_lock = Auto | Fixed

record SwapSettings =
  preserveHair :: bool
  matchSkinTone :: bool
  matchLighting :: bool
  faceScaleLock :: scale_lock
  skinSmoothness :: int
  outputQuality :: int

datatype status = Idle | Processing | Completed | Failed

record ProcessedImage =
  id' :: string
  originalUrl :: string
  processedUrl :: "string option"
  status :: status
  error :: "string option"
  item_analysis :: "FaceAnalysisResult option"

definition DEFAULT_SWAP_SETTINGS :: SwapSettings where
  "DEFAULT_SWAP_SETTINGS =
     \<lparr>preserveHair = True, matchSkinTone = True, matchLighting = True,
      faceScaleLock = Auto, skinSmoothness = 5, outputQuality = 90\<rparr>"

subsection \<open>The persisted record\<close>

text \<open>
  \<^verbatim>\<open>App.tsx\<close> writes \<^verbatim>\<open>analysis: analysis || undefined\<close> into the session snapshot: the
  key is always there, with the value \<^verbatim>\<open>undefined\<close> when there is no analysis. A record in
  which the key is missing is a different record, so the stored analysis has three
  shapes. For the other keys \<open>None\<close> stands for a key that is missing (or
  \<^verbatim>\<open>undefined\<close>); the application never writes such a key.

  \<^verbatim>\<open>types.ts\<close> declares the legacy key \<^verbatim>\<open>sourceFace\<close> in \<^verbatim>\<open>AppSessionState\<close>, while
  \<^verbatim>\<open>App.tsx\<close> reads and writes \<^verbatim>\<open>sourceFaces\<close>; the stored session has both. In the same
  way the bookmark has the declared \<^verbatim>\<open>image\<close> and the \<^verbatim>\<open>images\<close> that the restore reads.
\<close>

datatype 'a field = Absent | Undefined | Present 'a

record AppSessionState =
  ss_targets :: "ProcessedImage list option"
  ss_sourceFace :: "string option"
  ss_sourceFaces :: "string list option"
  ss_analysis :: "FaceAnalysisResult field"

record LastUsedSource =
  lus_image :: "string option"
  lus_images :: "string list option"
  lus_analysis :: "FaceAnalysisResult option"
  lus_timestamp :: int

record UserPreferences =
  last_used_source :: "LastUsedSource option"
  session_state :: "AppSessionState option"

section \<open>The storage service (services/storageService.ts)\<close>

text \<open>
  IndexedDB is outside the program. The object store holds at most one record under the
  key \<^verbatim>\<open>user_settings\<close>: \<open>None\<close> is a store without that record. What the database does
  in one call is a parameter: every request succeeds (\<open>None\<close>), or \<^verbatim>\<open>openDB\<close> rejects,
  or the \<^verbatim>\<open>get\<close> request fails, or the \<^verbatim>\<open>put\<close> request fails. A rejected promise is
  \<open>Inl\<close> of the failure; the console output of the call is returned with the result.
\<close>

datatype idb_failure = OpenFails | GetFails | PutFails

type_synonym storage = "UserPreferences option"

definition empty_prefs :: UserPreferences where
  "empty_prefs = \<lparr>last_used_source = None, session_state = None\<rparr>"

text \<open>
  \<^verbatim>\<open>{ ...current, ...partialPrefs }\<close>: every key of the partial record replaces the
  stored value of that key, every other key keeps its stored value. In a partial record
  \<open>None\<close> is a key that the caller did not pass.
\<close>

definition merge_prefs :: "UserPreferences \<Rightarrow> UserPreferences \<Rightarrow> UserPreferences" where
  "merge_prefs current partialPrefs =
     \<lparr>last_used_source =
        (case last_used_source partialPrefs of
           Some v \<Rightarrow> Some v
         | None \<Rightarrow> last_used_source current),
      session_state =
        (case session_state partialPrefs of
           Some v \<Rightarrow> Some v
         | None \<Rightarrow> session_state current)\<rparr>"

text \<open>
  \<^verbatim>\<open>updatePreferences\<close>. The \<^verbatim>\<open>catch\<close> block is reached only when \<^verbatim>\<open>await openDB()\<close>
  rejects: it logs and throws the error again. The promise built around the two requests
  is returned without \<^verbatim>\<open>await\<close>, so a failing request rejects the call without passing
  through the \<^verbatim>\<open>catch\<close> block. On success the stored record is
  \<^verbatim>\<open>{ ...(getReq.result || {}), ...partialPrefs }\<close>.
\<close>

definition updatePreferences ::
  "idb_failure option \<Rightarrow> storage \<Rightarrow> UserPreferences
     \<Rightarrow> (idb_failure + unit) \<times> storage \<times> string list" where
  "updatePreferences io db partialPrefs =
     (case io of
        Some OpenFails \<Rightarrow> (Inl OpenFails, db, [''IndexedDB Update Error:''])
      | Some GetFails \<Rightarrow> (Inl GetFails, db, [])
      | Some PutFails \<Rightarrow> (Inl PutFails, db, [])
      | None \<Rightarrow>
          (let current = (case db of Some r \<Rightarrow> r | None \<Rightarrow> empty_prefs);
               updated = merge_prefs current partialPrefs
           in (Inr (), Some updated, [])))"

text \<open>
  \<^verbatim>\<open>loadPreferences\<close>. Here the \<^verbatim>\<open>catch\<close> block logs and returns \<^verbatim>\<open>null\<close>; a failing
  \<^verbatim>\<open>get\<close> request rejects the call. No \<^verbatim>\<open>put\<close> request is made.
\<close>

definition loadPreferences ::
  "idb_failure option \<Rightarrow> storage \<Rightarrow> (idb_failure + UserPreferences option) \<times> string list" where
  "loadPreferences io db =
     (case io of
        Some OpenFails \<Rightarrow> (Inr None, [''IndexedDB Load Error:''])
      | Some GetFails \<Rightarrow> (Inl GetFails, [])
      | _ \<Rightarrow> (Inr db, []))"

section \<open>The source identity sequence (App.tsx, handleSourceSelect)\<close>

text \<open>
  The updater passed to \<^verbatim>\<open>setSourceFaces\<close>: \<^verbatim>\<open>prev.includes(base64)\<close> compares the data
  URLs as strings.
\<close>

definition addImage :: "string list \<Rightarrow> string \<Rightarrow> string list" where
  "addImage prev base64 =
     (if base64 \<in> set prev then prev
      else if length prev \<ge> 3 then prev
      else prev @ [base64])"

text \<open>\<^verbatim>\<open>newFaces.splice(index, 1)\<close> on a copy: an index past the end removes nothing.\<close>

definition removeSourceImage :: "nat \<Rightarrow> string list \<Rightarrow> string list" where
  "removeSourceImage index prev = take index prev @ drop (Suc index) prev"

section \<open>The application state (App.tsx)\<close>

text \<open>The \<^verbatim>\<open>useState\<close> cells of \<^verbatim>\<open>App\<close> that the session and the batch read or write.\<close>

record app_state =
  isStorageLoaded :: bool
  sourceFaces :: "string list"
  targets :: "ProcessedImage list"
  analysis :: "FaceAnalysisResult option"
  settings :: SwapSettings
  isProcessingBatch :: bool

definition initial_app :: app_state where
  "initial_app =
     \<lparr>isStorageLoaded = False, sourceFaces = [], targets = [], analysis = None,
      settings = DEFAULT_SWAP_SETTINGS, isProcessingBatch = False\<rparr>"

text \<open>The item that \<^verbatim>\<open>handleTargetSelect\<close> appends.\<close>

definition newTarget :: "string \<Rightarrow> string \<Rightarrow> ProcessedImage" where
  "newTarget i url =
     \<lparr>id' = i, originalUrl = url, processedUrl = None, status = Idle, error = None,
      item_analysis = None\<rparr>"

text \<open>The three updaters that \<^verbatim>\<open>runBatchProcessor\<close> passes to \<^verbatim>\<open>setTargets\<close>.\<close>

definition markProcessing :: "string \<Rightarrow> ProcessedImage list \<Rightarrow> ProcessedImage list" where
  "markProcessing i prev = map (\<lambda>t. if id' t = i then t\<lparr>status := Processing\<rparr> else t) prev"

definition markCompleted ::
  "string \<Rightarrow> string \<Rightarrow> ProcessedImage list \<Rightarrow> ProcessedImage list" where
  "markCompleted i swappedImage prev =
     map (\<lambda>t. if id' t = i then t\<lparr>status := Completed, processedUrl := Some swappedImage\<rparr> else t)
       prev"

definition markFailed ::
  "string \<Rightarrow> string \<Rightarrow> ProcessedImage list \<Rightarrow> ProcessedImage list" where
  "markFailed i msg prev =
     map (\<lambda>t. if id' t = i then t\<lparr>status := Failed, error := Some msg\<rparr> else t) prev"

text \<open>
  What the \<^verbatim>\<open>catch\<close> block receives is an \<^verbatim>\<open>Error\<close> with its message or some other
  value: \<^verbatim>\<open>error instanceof Error ? error.message : 'Error'\<close>.
\<close>

datatype thrown = ErrorObject string | OtherValue

fun errorMessage :: "thrown \<Rightarrow> string" where
  "errorMessage (ErrorObject message) = message"
| "errorMessage OtherValue = ''Error''"

definition idleIds :: "ProcessedImage list \<Rightarrow> string list" where
  "idleIds ts = map id' (filter (\<lambda>t. status t = Idle) ts)"

text \<open>\<^verbatim>\<open>targets.find(t => t.id === id)?.originalUrl\<close>: \<open>None\<close> is \<^verbatim>\<open>undefined\<close>.\<close>

definition targetUrl :: "ProcessedImage list \<Rightarrow> string \<Rightarrow> string option" where
  "targetUrl ts i =
     (case find (\<lambda>t. id' t = i) ts of None \<Rightarrow> None | Some t \<Rightarrow> Some (originalUrl t))"

text \<open>
  The body of the \<^verbatim>\<open>try\<close> block of \<^verbatim>\<open>init\<close>, once \<^verbatim>\<open>loadPreferences\<close> has delivered
  \<open>prefs\<close>. An array is truthy even when it is empty, a string only when it is not
  empty: \<^verbatim>\<open>s.targets || []\<close>, \<^verbatim>\<open>if (lastSource.images)\<close>, \<^verbatim>\<open>else if (lastSource.image)\<close>.
\<close>

definition restore :: "UserPreferences option \<Rightarrow> app_state \<Rightarrow> app_state" where
  "restore prefs a =
     (case prefs of
        None \<Rightarrow> a
      | Some p \<Rightarrow>
          (case session_state p of
             Some s \<Rightarrow>
               a\<lparr>targets := (case ss_targets s of Some ts \<Rightarrow> ts | None \<Rightarrow> []),
                 sourceFaces := (case ss_sourceFaces s of Some fs \<Rightarrow> fs | None \<Rightarrow> []),
                 analysis := (case ss_analysis s of Present x \<Rightarrow> Some x | _ \<Rightarrow> None)\<rparr>
           | None \<Rightarrow>
               (case last_used_source p of
                  None \<Rightarrow> a
                | Some lastSource \<Rightarrow>
                    a\<lparr>sourceFaces :=
                        (case lus_images lastSource of
                           Some imgs \<Rightarrow> imgs
                         | None \<Rightarrow>
                             (case lus_image lastSource of
                                None \<Rightarrow> sourceFaces a
                              | Some img \<Rightarrow> if img = [] then sourceFaces a else [img])),
                      analysis := lus_analysis lastSource\<rparr>)))"

text \<open>
  The object that the auto-save effect passes as \<^verbatim>\<open>session_state\<close>:
  \<^verbatim>\<open>{ targets, sourceFaces: sourceFaces, analysis: analysis || undefined }\<close>.
\<close>

definition snapshot :: "app_state \<Rightarrow> AppSessionState" where
  "snapshot a =
     \<lparr>ss_targets = Some (targets a), ss_sourceFace = None,
      ss_sourceFaces = Some (sourceFaces a),
      ss_analysis = (case analysis a of None \<Rightarrow> Undefined | Some x \<Rightarrow> Present x)\<rparr>"

text \<open>The toggles and sliders: \<^verbatim>\<open>setSettings(s => ({...s, preserveHair: v}))\<close> and so on.\<close>

datatype settings_edit =
    SetPreserveHair bool
  | SetMatchSkinTone bool
  | SetMatchLighting bool
  | SetSkinSmoothness int
  | SetOutputQuality int

fun applyEdit :: "settings_edit \<Rightarrow> SwapSettings \<Rightarrow> SwapSettings" where
  "applyEdit (SetPreserveHair v) s = s\<lparr>preserveHair := v\<rparr>"
| "applyEdit (SetMatchSkinTone v) s = s\<lparr>matchSkinTone := v\<rparr>"
| "applyEdit (SetMatchLighting v) s = s\<lparr>matchLighting := v\<rparr>"
| "applyEdit (SetSkinSmoothness v) s = s\<lparr>skinSmoothness := v\<rparr>"
| "applyEdit (SetOutputQuality v) s = s\<lparr>outputQuality := v\<rparr>"

section \<open>The application as an event-driven system\<close>

text \<open>
  The application runs on one thread: a handler runs from an event to its next
  \<^verbatim>\<open>await\<close> (or to its end) without interruption, and between two such pieces any other
  event may be handled. The system state is the state of \<^verbatim>\<open>App\<close> together with what is
  pending or outside:
  \<^item> \<open>runs\<close>: the batches that are suspended at an \<^verbatim>\<open>await\<close>, oldest first, each with
    the variables of its closure. \<^verbatim>\<open>runBatchProcessor\<close> is created by a render and reads
    \<^verbatim>\<open>targets\<close>, \<^verbatim>\<open>sourceFaces\<close> and \<^verbatim>\<open>settings\<close> from that render: they are the values at
    the click and stay the same through the run, whatever \<^verbatim>\<open>setTargets\<close> and
    \<^verbatim>\<open>setSettings\<close> do later. Only the updater functions \<^verbatim>\<open>prev => ...\<close> see the live
    list. \<^verbatim>\<open>runBatchProcessor\<close> does not look at \<^verbatim>\<open>isProcessingBatch\<close>: a click while a
    batch is suspended starts another one beside it;
  \<^item> \<open>db\<close>: the record in IndexedDB;
  \<^item> \<open>timer\<close>: the pending timeout of the auto-save effect, with the snapshot it will
    write;
  \<^item> \<open>calls\<close>: the calls made to \<^verbatim>\<open>performFaceSwap\<close>, in order;
  \<^item> \<open>storage_log\<close>: the settling of \<^verbatim>\<open>loadPreferences\<close> and the calls of
    \<^verbatim>\<open>updatePreferences\<close>, in order;
  \<^item> \<open>console\<close>: what was logged; \<open>unhandled\<close>: the rejections that no handler took;
  \<^item> \<open>issued\<close>: the identifiers that exist so far.
\<close>

datatype await_point = AwaitSwap | AwaitPause

record batch_run =
  br_targets :: "ProcessedImage list"
  br_sourceFaces :: "string list"
  br_settings :: SwapSettings
  br_current :: string
  br_awaiting :: await_point
  br_rest :: "string list"

record swap_call =
  sc_sources :: "string list"
  sc_target :: string
  sc_settings :: SwapSettings

datatype storage_call = LoadSettled | UpdateCalled

record sys =
  app :: app_state
  runs :: "batch_run list"
  db :: storage
  timer :: "AppSessionState option"
  calls :: "swap_call list"
  storage_log :: "storage_call list"
  console :: "string list"
  unhandled :: "idb_failure list"
  issued :: "string list"

definition stored_targets :: "storage \<Rightarrow> ProcessedImage list" where
  "stored_targets st =
     (case st of
        None \<Rightarrow> []
      | Some p \<Rightarrow>
          (case session_state p of
             None \<Rightarrow> []
           | Some s \<Rightarrow> (case ss_targets s of None \<Rightarrow> [] | Some ts \<Rightarrow> ts)))"

text \<open>The page has just been opened on a browser whose store holds \<open>st\<close>.\<close>

definition boot :: "storage \<Rightarrow> sys" where
  "boot st =
     \<lparr>app = initial_app, runs = [], db = st, timer = None, calls = [], storage_log = [],
      console = [], unhandled = [], issued = map id' (stored_targets st)\<rparr>"

text \<open>
  The auto-save effect runs after a render in which \<^verbatim>\<open>isStorageLoaded\<close>, \<^verbatim>\<open>targets\<close>,
  \<^verbatim>\<open>sourceFaces\<close> or \<^verbatim>\<open>analysis\<close> changed: it returns at once while \<^verbatim>\<open>isStorageLoaded\<close> is
  false, and otherwise replaces the pending timeout by one that will write the state of
  that render.
\<close>

definition scheduleSave :: "sys \<Rightarrow> sys" where
  "scheduleSave s =
     (if isStorageLoaded (app s) then s\<lparr>timer := Some (snapshot (app s))\<rparr> else s)"

definition setTargets :: "(ProcessedImage list \<Rightarrow> ProcessedImage list) \<Rightarrow> sys \<Rightarrow> sys" where
  "setTargets f s = scheduleSave (s\<lparr>app := (app s)\<lparr>targets := f (targets (app s))\<rparr>\<rparr>)"

text \<open>
  The \<^verbatim>\<open>for\<close> loop of \<^verbatim>\<open>runBatchProcessor\<close> from the head of the remaining identifiers up to
  the next \<^verbatim>\<open>await performFaceSwap(...)\<close>, or to \<^verbatim>\<open>setIsProcessingBatch(false)\<close> after the
  last one. \<open>ts0\<close>, \<open>faces0\<close> and \<open>settings0\<close> are the closure's \<^verbatim>\<open>targets\<close>,
  \<^verbatim>\<open>sourceFaces\<close> and \<^verbatim>\<open>settings\<close>. \<^verbatim>\<open>if (!targetUrl) continue\<close> goes to the next identifier
  without a pause; \<^verbatim>\<open>undefined\<close> and the empty string are the falsy values. The result is
  the state at that point and, when the loop is suspended, the batch that waits.
\<close>

fun runLoop ::
  "ProcessedImage list \<Rightarrow> string list \<Rightarrow> SwapSettings \<Rightarrow> string list \<Rightarrow> sys
     \<Rightarrow> sys \<times> batch_run option" where
  "runLoop ts0 faces0 settings0 [] s =
     (s\<lparr>app := (app s)\<lparr>isProcessingBatch := False\<rparr>\<rparr>, None)"
| "runLoop ts0 faces0 settings0 (i # ids) s =
     (let s1 = setTargets (markProcessing i) s in
      case targetUrl ts0 i of
        None \<Rightarrow> runLoop ts0 faces0 settings0 ids s1
      | Some url \<Rightarrow>
          if url = [] then runLoop ts0 faces0 settings0 ids s1
          else (s1\<lparr>calls := calls s1 @
                      [\<lparr>sc_sources = faces0, sc_target = url, sc_settings = settings0\<rparr>]\<rparr>,
                Some \<lparr>br_targets = ts0, br_sourceFaces = faces0,
                      br_settings = settings0, br_current = i,
                      br_awaiting = AwaitSwap, br_rest = ids\<rparr>))"

text \<open>
  A batch that a click has started joins the suspended batches when its loop is
  suspended. A batch that went on from its pause takes its old place again, or leaves
  the list when its loop has come to its end.
\<close>

definition started :: "sys \<times> batch_run option \<Rightarrow> sys" where
  "started p =
     (case p of
        (s, None) \<Rightarrow> s
      | (s, Some r) \<Rightarrow> s\<lparr>runs := runs s @ [r]\<rparr>)"

definition resumed :: "nat \<Rightarrow> sys \<times> batch_run option \<Rightarrow> sys" where
  "resumed n p =
     (case p of
        (s, None) \<Rightarrow> s\<lparr>runs := take n (runs s) @ drop (Suc n) (runs s)\<rparr>
      | (s, Some r) \<Rightarrow> s\<lparr>runs := (runs s)[n := r]\<rparr>)"

definition runBatchProcessor :: "sys \<Rightarrow> sys" where
  "runBatchProcessor s =
     (if sourceFaces (app s) = [] then s
      else started
             (runLoop (targets (app s)) (sourceFaces (app s)) (settings (app s))
                (idleIds (targets (app s)))
                (s\<lparr>app := (app s)\<lparr>isProcessingBatch := True\<rparr>\<rparr>)))"

text \<open>
  The events. \<open>E_LoadSettles\<close>: the \<^verbatim>\<open>loadPreferences\<close> call of \<^verbatim>\<open>init\<close> settles and
  \<^verbatim>\<open>init\<close> runs to its end. \<open>E_TimerFires\<close>: the auto-save timeout fires and its
  \<^verbatim>\<open>updatePreferences\<close> call runs; the promise is neither awaited nor given a handler.
  \<open>E_SourceLoaded\<close>: the \<^verbatim>\<open>setSourceFaces\<close> of \<^verbatim>\<open>handleSourceSelect\<close>. \<open>E_AnalysisSet\<close>:
  one of its \<^verbatim>\<open>setAnalysis\<close> calls (the result comes from the Face Analyzer, so any value
  at any time). \<open>E_RemoveSource\<close>, \<open>E_ClearSources\<close>: \<^verbatim>\<open>removeSourceImage\<close> and
  \<^verbatim>\<open>onClear\<close>. \<open>E_TargetLoaded\<close>: the \<^verbatim>\<open>reader.onload\<close> of \<^verbatim>\<open>handleTargetSelect\<close> with the
  identifier it generated and the data URL it read. \<open>E_RemoveTarget\<close>: the remove button
  of a target. \<open>E_EditSettings\<close>: a toggle or slider. \<open>E_RunBatch\<close>: a click on the Run
  Batch button. \<open>E_SwapSettles n\<close>: the \<^verbatim>\<open>performFaceSwap\<close> call of the \<open>n\<close>-th suspended
  batch returns an image (\<open>Inr\<close>) or throws (\<open>Inl\<close>). \<open>E_PauseElapses n\<close>: the 200 ms
  timeout of the \<open>n\<close>-th suspended batch.

  A state cell set to the value it already has (the same array, \<^verbatim>\<open>null\<close> again) causes no
  render, hence no new timeout.
\<close>

datatype event =
    E_LoadSettles "idb_failure option"
  | E_TimerFires "idb_failure option"
  | E_SourceLoaded string
  | E_AnalysisSet "FaceAnalysisResult option"
  | E_RemoveSource nat
  | E_ClearSources
  | E_TargetLoaded string string
  | E_RemoveTarget string
  | E_EditSettings settings_edit
  | E_RunBatch
  | E_SwapSettles nat "thrown + string"
  | E_PauseElapses nat

fun step :: "event \<Rightarrow> sys \<Rightarrow> sys" where
  "step (E_LoadSettles io) s =
     (case loadPreferences io (db s) of
        (Inr prefs, out) \<Rightarrow>
          scheduleSave
            (s\<lparr>app := (restore prefs (app s))\<lparr>isStorageLoaded := True\<rparr>,
               console := console s @ out,
               storage_log := storage_log s @ [LoadSettled]\<rparr>)
      | (Inl e, out) \<Rightarrow>
          scheduleSave
            (s\<lparr>app := (app s)\<lparr>isStorageLoaded := True\<rparr>,
               console := console s @ out @ [''Failed to load user preferences''],
               storage_log := storage_log s @ [LoadSettled]\<rparr>))"
| "step (E_TimerFires io) s =
     (case timer s of
        None \<Rightarrow> s
      | Some snap \<Rightarrow>
          (case updatePreferences io (db s)
                  \<lparr>last_used_source = None, session_state = Some snap\<rparr> of
             (res, db', out) \<Rightarrow>
               s\<lparr>db := db', timer := None, console := console s @ out,
                 unhandled := unhandled s @ (case res of Inl e \<Rightarrow> [e] | Inr u \<Rightarrow> []),
                 storage_log := storage_log s @ [UpdateCalled]\<rparr>))"
| "step (E_SourceLoaded base64) s =
     (if addImage (sourceFaces (app s)) base64 = sourceFaces (app s) then s
      else scheduleSave
             (s\<lparr>app := (app s)\<lparr>sourceFaces := addImage (sourceFaces (app s)) base64\<rparr>\<rparr>))"
| "step (E_AnalysisSet a) s =
     (if a = None \<and> analysis (app s) = None then s
      else scheduleSave (s\<lparr>app := (app s)\<lparr>analysis := a\<rparr>\<rparr>))"
| "step (E_RemoveSource index) s =
     scheduleSave
       (s\<lparr>app := (app s)\<lparr>sourceFaces := removeSourceImage index (sourceFaces (app s)),
                          analysis := (if index = 0 then None else analysis (app s))\<rparr>\<rparr>)"
| "step E_ClearSources s =
     scheduleSave (s\<lparr>app := (app s)\<lparr>sourceFaces := [], analysis := None\<rparr>\<rparr>)"
| "step (E_TargetLoaded i url) s =
     setTargets (\<lambda>prev. prev @ [newTarget i url]) (s\<lparr>issued := issued s @ [i]\<rparr>)"
| "step (E_RemoveTarget i) s = setTargets (filter (\<lambda>p. id' p \<noteq> i)) s"
| "step (E_EditSettings e) s = s\<lparr>app := (app s)\<lparr>settings := applyEdit e (settings (app s))\<rparr>\<rparr>"
| "step E_RunBatch s = runBatchProcessor s"
| "step (E_SwapSettles n outcome) s =
     (if n < length (runs s) \<and> br_awaiting (runs s ! n) = AwaitSwap
      then (case outcome of
              Inr swappedImage \<Rightarrow>
                (setTargets (markCompleted (br_current (runs s ! n)) swappedImage) s)
                  \<lparr>runs := (runs s)[n := (runs s ! n)\<lparr>br_awaiting := AwaitPause\<rparr>]\<rparr>
            | Inl err \<Rightarrow>
                (setTargets (markFailed (br_current (runs s ! n)) (errorMessage err)) s)
                  \<lparr>runs := (runs s)[n := (runs s ! n)\<lparr>br_awaiting := AwaitPause\<rparr>]\<rparr>)
      else s)"
| "step (E_PauseElapses n) s =
     (if n < length (runs s) \<and> br_awaiting (runs s ! n) = AwaitPause
      then resumed n
             (runLoop (br_targets (runs s ! n)) (br_sourceFaces (runs s ! n))
                (br_settings (runs s ! n)) (br_rest (runs s ! n)) s)
      else s)"

text \<open>
  When an event can happen. \<^verbatim>\<open>init\<close> runs once, so \<^verbatim>\<open>loadPreferences\<close> settles once, and
  that is when \<^verbatim>\<open>isStorageLoaded\<close> becomes true. A timeout fires only while it is pending,
  a promise settles only while a batch awaits it. \<^verbatim>\<open>Date.now().toString() +
  Math.random().toString()\<close> is taken to return an identifier that does not exist yet, and
  \<^verbatim>\<open>reader.readAsDataURL\<close> delivers a data URL, which begins with \<^verbatim>\<open>data:\<close> and is never the
  empty string. A click on Run Batch can come at any time: nothing in
  \<^verbatim>\<open>runBatchProcessor\<close> refuses it while a batch runs.
\<close>

fun enabled :: "event \<Rightarrow> sys \<Rightarrow> bool" where
  "enabled (E_LoadSettles io) s = (\<not> isStorageLoaded (app s))"
| "enabled (E_TimerFires io) s = (timer s \<noteq> None)"
| "enabled (E_TargetLoaded i url) s = (i \<notin> set (issued s) \<and> url \<noteq> [])"
| "enabled (E_SwapSettles n outcome) s =
     (n < length (runs s) \<and> br_awaiting (runs s ! n) = AwaitSwap)"
| "enabled (E_PauseElapses n) s =
     (n < length (runs s) \<and> br_awaiting (runs s ! n) = AwaitPause)"
| "enabled e s = True"

fun exec :: "event list \<Rightarrow> sys \<Rightarrow> sys" where
  "exec [] s = s"
| "exec (e # es) s = exec es (step e s)"

fun valid :: "event list \<Rightarrow> sys \<Rightarrow> bool" where
  "valid [] s = True"
| "valid (e # es) s = (enabled e s \<and> valid es (step e s))"

text \<open>
  A sequence of events in which the batches do not overlap: every click on Run Batch
  comes when no batch is suspended.
\<close>

fun serial :: "event list \<Rightarrow> sys \<Rightarrow> bool" where
  "serial [] s = True"
| "serial (e # es) s = ((e = E_RunBatch \<longrightarrow> runs s = []) \<and> serial es (step e s))"

text \<open>
  The Run Batch button is rendered with \<^verbatim>\<open>disabled={sourceFaces.length === 0 ||
  targets.filter(t => t.status === 'idle').length === 0}\<close> and
  \<^verbatim>\<open>isLoading={isProcessingBatch}\<close>. The \<^verbatim>\<open>Button\<close> component is not among the sources, so
  \<open>enabled\<close> lets a click come at any time, and what is proved holds for every click. In
  a \<open>clickable\<close> sequence of events every click comes while the \<^verbatim>\<open>disabled\<close> expression of
  the button is false.
\<close>

definition runBatchDisabled :: "sys \<Rightarrow> bool" where
  "runBatchDisabled s =
     (sourceFaces (app s) = [] \<or> filter (\<lambda>t. status t = Idle) (targets (app s)) = [])"

fun clickable :: "event list \<Rightarrow> sys \<Rightarrow> bool" where
  "clickable [] s = True"
| "clickable (E_RunBatch # es) s =
     (\<not> runBatchDisabled s \<and> clickable es (step E_RunBatch s))"
| "clickable (e # es) s = clickable es (step e s)"

section \<open>Predicates of the claims and of their proofs\<close>

text \<open>
  The two equivalences of a target item: a result exactly when completed, an error message
  exactly when failed.
\<close>

definition item_ok :: "ProcessedImage \<Rightarrow> bool" where
  "item_ok t =
     (((processedUrl t \<noteq> None) = (status t = Completed))
      \<and> ((error t \<noteq> None) = (status t = Failed)))"

text \<open>
  A list of items as the application builds it: no identifier occurs twice and every item
  has the data URL of its image.
\<close>

definition shaped :: "ProcessedImage list \<Rightarrow> bool" where
  "shaped ts = (distinct (map id' ts) \<and> (\<forall>t\<in>set ts. originalUrl t \<noteq> []))"

text \<open>
  The stored record is one that an earlier session of the application could have left: its
  targets are shaped, and (for \<open>store_wf\<close>) every one of them has the two equivalences.
\<close>

definition store_shaped :: "storage \<Rightarrow> bool" where
  "store_shaped st = shaped (stored_targets st)"

definition store_wf :: "storage \<Rightarrow> bool" where
  "store_wf st = (shaped (stored_targets st) \<and> (\<forall>t\<in>set (stored_targets st). item_ok t))"

text \<open>
  The identifiers that a suspended batch has not finished: while it awaits the engine,
  the current one and the rest; while it pauses, the rest.
\<close>

definition pending :: "batch_run \<Rightarrow> string list" where
  "pending r =
     (case br_awaiting r of
        AwaitSwap \<Rightarrow> br_current r # br_rest r
      | AwaitPause \<Rightarrow> br_rest r)"

text \<open>The items with these identifiers have not reached a terminal status.\<close>

definition unstarted :: "string list \<Rightarrow> ProcessedImage list \<Rightarrow> bool" where
  "unstarted ids ts =
     (\<forall>t\<in>set ts. id' t \<in> set ids \<longrightarrow> status t = Idle \<or> status t = Processing)"

text \<open>A pending auto-save timeout exists only after the load, and holds the current state.\<close>

definition timer_ok :: "sys \<Rightarrow> bool" where
  "timer_ok s =
     (\<forall>snap. timer s = Some snap \<longrightarrow> isStorageLoaded (app s) \<and> snap = snapshot (app s))"

text \<open>
  What holds in every state, whatever the batches do. Until \<^verbatim>\<open>loadPreferences\<close> settles,
  the identifiers of the stored targets are known and none of them is in the live list.
\<close>

definition shape_inv :: "sys \<Rightarrow> bool" where
  "shape_inv s =
     (shaped (targets (app s))
      \<and> set (map id' (targets (app s))) \<subseteq> set (issued s)
      \<and> shaped (stored_targets (db s))
      \<and> timer_ok s
      \<and> (\<not> isStorageLoaded (app s) \<longrightarrow>
           set (map id' (stored_targets (db s))) \<subseteq> set (issued s)
           \<and> set (map id' (stored_targets (db s))) \<inter> set (map id' (targets (app s))) = {}))"

text \<open>What holds of the identifiers that a batch still has to work on.\<close>

definition work_inv :: "string list \<Rightarrow> sys \<Rightarrow> bool" where
  "work_inv ids s =
     (distinct ids \<and> set ids \<subseteq> set (issued s) \<and> unstarted ids (targets (app s))
      \<and> (\<not> isStorageLoaded (app s) \<longrightarrow> set ids \<inter> set (map id' (stored_targets (db s))) = {}))"

text \<open>What holds in addition as long as the batches do not overlap.\<close>

definition ok_inv :: "sys \<Rightarrow> bool" where
  "ok_inv s =
     ((\<forall>t\<in>set (targets (app s)). item_ok t)
      \<and> (\<forall>t\<in>set (stored_targets (db s)). item_ok t)
      \<and> length (runs s) \<le> 1
      \<and> (\<forall>r\<in>set (runs s). work_inv (pending r) s))"

text \<open>
  Before \<^verbatim>\<open>loadPreferences\<close> settles nothing was written and no write is pending; after
  it, its settling is the first entry of the storage log.
\<close>

definition startup :: "storage \<Rightarrow> sys \<Rightarrow> bool" where
  "startup st0 s =
     (if isStorageLoaded (app s) then (\<exists>rest. storage_log s = LoadSettled # rest)
      else storage_log s = [] \<and> timer s = None \<and> db s = st0)"





text \<open>
  A session that does nothing but start: the load settles, then the auto-save timeout
  fires. The result is the record that the next session finds.
\<close>

definition roundtrip :: "storage \<Rightarrow> storage" where
  "roundtrip st = db (exec [E_LoadSettles None, E_TimerFires None] (boot st))"

subsection \<open>Concrete records and sessions\<close>

text \<open>A record of the legacy shape: a bookmarked source image, no session.\<close>

definition legacy_record :: UserPreferences where
  "legacy_record =
     \<lparr>last_used_source =
        Some \<lparr>lus_image = Some ''face'', lus_images = None, lus_analysis = None,
              lus_timestamp = 1\<rparr>,
      session_state = None\<rparr>"

text \<open>A record that a session left: one completed target, one source image.\<close>

definition saved_session :: UserPreferences where
  "saved_session =
     \<lparr>last_used_source = None,
      session_state =
        Some \<lparr>ss_targets =
                Some [\<lparr>id' = ''z'', originalUrl = ''uz'', processedUrl = Some ''done'',
                       status = Completed, error = None, item_analysis = None\<rparr>],
              ss_sourceFace = None, ss_sourceFaces = Some [''face''],
              ss_analysis = Undefined\<rparr>\<rparr>"

text \<open>
  A session over \<open>saved_session\<close>: a target is added before the load settles, two after
  it; the batch completes one and fails the other; targets are removed and the state is
  saved in between.
\<close>

definition full_session :: "event list" where
  "full_session =
     [E_TargetLoaded ''a'' ''ua'', E_LoadSettles None, E_TargetLoaded ''b'' ''ub'',
      E_TargetLoaded ''c'' ''uc'', E_RunBatch, E_RemoveTarget ''z'',
      E_SwapSettles 0 (Inr ''img''), E_TimerFires None, E_PauseElapses 0,
      E_SwapSettles 0 (Inl (ErrorObject ''No image generated in response'')),
      E_PauseElapses 0, E_RemoveTarget ''b'', E_TimerFires None]"



text \<open>
  Two batches that overlap. Two idle targets \<open>a\<close> and \<open>b\<close>; a click starts a batch over
  both, and a second click, while the swap of \<open>a\<close> is in flight, starts a batch over
  \<open>b\<close>. The second batch completes \<open>b\<close>; then the first one finishes \<open>a\<close>, comes to \<open>b\<close>
  and fails on it.
\<close>

definition two_batches :: "event list" where
  "two_batches =
     [E_LoadSettles None, E_SourceLoaded ''face'', E_TargetLoaded ''a'' ''ua'',
      E_TargetLoaded ''b'' ''ub'', E_RunBatch, E_RunBatch,
      E_SwapSettles 1 (Inr ''img2''), E_SwapSettles 0 (Inr ''img1''), E_PauseElapses 0,
      E_SwapSettles 0 (Inl (ErrorObject ''No image generated in response''))]"





section \<open>Auxiliary facts\<close>

lemmas model_defs =
  boot_def initial_app_def stored_targets_def scheduleSave_def setTargets_def
  loadPreferences_def updatePreferences_def merge_prefs_def empty_prefs_def restore_def
  addImage_def removeSourceImage_def snapshot_def newTarget_def runBatchProcessor_def
  started_def resumed_def idleIds_def targetUrl_def markProcessing_def markCompleted_def
  markFailed_def DEFAULT_SWAP_SETTINGS_def

subsection \<open>What the state updates leave alone\<close>

lemma scheduleSave_frame [simp]:
  "app (scheduleSave s) = app s" "runs (scheduleSave s) = runs s" "db (scheduleSave s) = db s"
  "calls (scheduleSave s) = calls s" "storage_log (scheduleSave s) = storage_log s"
  "console (scheduleSave s) = console s" "unhandled (scheduleSave s) = unhandled s"
  "issued (scheduleSave s) = issued s"
  by (simp_all add: scheduleSave_def)

lemma scheduleSave_timer:
  "timer (scheduleSave s) = (if isStorageLoaded (app s) then Some (snapshot (app s)) else timer s)"
  by (simp add: scheduleSave_def)

lemma setTargets_frame [simp]:
  "targets (app (setTargets f s)) = f (targets (app s))"
  "isStorageLoaded (app (setTargets f s)) = isStorageLoaded (app s)"
  "sourceFaces (app (setTargets f s)) = sourceFaces (app s)"
  "analysis (app (setTargets f s)) = analysis (app s)"
  "settings (app (setTargets f s)) = settings (app s)"
  "isProcessingBatch (app (setTargets f s)) = isProcessingBatch (app s)"
  "runs (setTargets f s) = runs s" "db (setTargets f s) = db s"
  "calls (setTargets f s) = calls s" "storage_log (setTargets f s) = storage_log s"
  "console (setTargets f s) = console s" "unhandled (setTargets f s) = unhandled s"
  "issued (setTargets f s) = issued s"
  by (simp_all add: setTargets_def)

lemma setTargets_timer:
  "timer (setTargets f s) =
     (if isStorageLoaded (app s) then Some (snapshot ((app s)\<lparr>targets := f (targets (app s))\<rparr>))
      else timer s)"
  by (simp add: setTargets_def scheduleSave_def)

lemma runLoop_frame [simp]:
  "isStorageLoaded (app (fst (runLoop ts0 f0 st0 ids s))) = isStorageLoaded (app s)"
  "sourceFaces (app (fst (runLoop ts0 f0 st0 ids s))) = sourceFaces (app s)"
  "analysis (app (fst (runLoop ts0 f0 st0 ids s))) = analysis (app s)"
  "settings (app (fst (runLoop ts0 f0 st0 ids s))) = settings (app s)"
  "runs (fst (runLoop ts0 f0 st0 ids s)) = runs s"
  "db (fst (runLoop ts0 f0 st0 ids s)) = db s"
  "storage_log (fst (runLoop ts0 f0 st0 ids s)) = storage_log s"
  "console (fst (runLoop ts0 f0 st0 ids s)) = console s"
  "unhandled (fst (runLoop ts0 f0 st0 ids s)) = unhandled s"
  "issued (fst (runLoop ts0 f0 st0 ids s)) = issued s"
  by (induction ids arbitrary: s; simp add: Let_def split: option.split)+

lemma runLoop_timer_unloaded:
  "\<not> isStorageLoaded (app s) \<Longrightarrow> timer (fst (runLoop ts0 f0 st0 ids s)) = timer s"
  by (induction ids arbitrary: s) (simp_all add: Let_def setTargets_timer split: option.split)

text \<open>Joining or leaving the suspended batches changes nothing but their list.\<close>

lemma started_frame [simp]:
  "app (started p) = app (fst p)" "db (started p) = db (fst p)"
  "timer (started p) = timer (fst p)" "calls (started p) = calls (fst p)"
  "storage_log (started p) = storage_log (fst p)" "console (started p) = console (fst p)"
  "unhandled (started p) = unhandled (fst p)" "issued (started p) = issued (fst p)"
  by (simp_all add: started_def split: prod.split option.split)

lemma resumed_frame [simp]:
  "app (resumed n p) = app (fst p)" "db (resumed n p) = db (fst p)"
  "timer (resumed n p) = timer (fst p)" "calls (resumed n p) = calls (fst p)"
  "storage_log (resumed n p) = storage_log (fst p)" "console (resumed n p) = console (fst p)"
  "unhandled (resumed n p) = unhandled (fst p)" "issued (resumed n p) = issued (fst p)"
  by (simp_all add: resumed_def split: prod.split option.split)

lemma runs_started:
  "runs (started p) = runs (fst p) @ (case snd p of None \<Rightarrow> [] | Some r \<Rightarrow> [r])"
  by (simp add: started_def split: prod.split option.split)

lemma runs_resumed:
  "runs (resumed n p) =
     (case snd p of
        None \<Rightarrow> take n (runs (fst p)) @ drop (Suc n) (runs (fst p))
      | Some r \<Rightarrow> (runs (fst p))[n := r])"
  by (simp add: resumed_def split: prod.split option.split)

lemma snapshot_ignores [simp]:
  "snapshot (a\<lparr>isProcessingBatch := b\<rparr>) = snapshot a"
  "snapshot (a\<lparr>settings := x\<rparr>) = snapshot a"
  "snapshot (a\<lparr>isStorageLoaded := l\<rparr>) = snapshot a"
  by (simp_all add: snapshot_def)

lemma restore_frame [simp]:
  "isStorageLoaded (restore prefs a) = isStorageLoaded a"
  "isProcessingBatch (restore prefs a) = isProcessingBatch a"
  "settings (restore prefs a) = settings a"
  by (simp_all add: restore_def split: option.split)

lemma restore_targets:
  "targets (restore prefs a) = targets a \<or> targets (restore prefs a) = stored_targets prefs"
  by (simp add: restore_def stored_targets_def split: option.split)

lemma stored_targets_written:
  "stored_targets (fst (snd (updatePreferences io d
      \<lparr>last_used_source = None, session_state = Some (snapshot a)\<rparr>))) =
   (if io = None then targets a else stored_targets d)"
proof (cases io)
  case None
  then show ?thesis
    by (simp add: updatePreferences_def merge_prefs_def stored_targets_def snapshot_def)
next
  case (Some f)
  then show ?thesis
    by (cases f) (simp_all add: updatePreferences_def)
qed



text \<open>The live list after a load is the list before it or the stored one.\<close>

lemma load_targets:
  "targets (app (step (E_LoadSettles io) s)) = targets (app s)
   \<or> targets (app (step (E_LoadSettles io) s)) = stored_targets (db s)"
proof (cases "loadPreferences io (db s)")
  case (Pair res out)
  show ?thesis
  proof (cases res)
    case (Inl e)
    then show ?thesis using Pair by simp
  next
    case (Inr prefs)
    then have "prefs = db s \<or> prefs = None"
      using Pair by (auto simp: loadPreferences_def split: option.splits idb_failure.splits)
    then show ?thesis
      using Pair Inr restore_targets [of prefs "app s"]
      by (auto simp: stored_targets_def restore_def)
  qed
qed

lemma load_frame [simp]:
  "isStorageLoaded (app (step (E_LoadSettles io) s))"
  "isProcessingBatch (app (step (E_LoadSettles io) s)) = isProcessingBatch (app s)"
  "runs (step (E_LoadSettles io) s) = runs s" "db (step (E_LoadSettles io) s) = db s"
  "issued (step (E_LoadSettles io) s) = issued s" "calls (step (E_LoadSettles io) s) = calls s"
  "timer (step (E_LoadSettles io) s) = Some (snapshot (app (step (E_LoadSettles io) s)))"
  by (cases "loadPreferences io (db s)"; cases "fst (loadPreferences io (db s))";
      simp add: scheduleSave_def)+

text \<open>What the firing of the auto-save timeout changes.\<close>

lemma timer_fires_frame [simp]:
  "app (step (E_TimerFires io) s) = app s" "runs (step (E_TimerFires io) s) = runs s"
  "issued (step (E_TimerFires io) s) = issued s" "calls (step (E_TimerFires io) s) = calls s"
  by (cases "timer s"; cases "updatePreferences io (db s)
        \<lparr>last_used_source = None, session_state = timer s\<rparr>"; simp)+

lemma timer_fires_db:
  "timer s = Some (snapshot (app s)) \<Longrightarrow>
   timer (step (E_TimerFires io) s) = None
   \<and> stored_targets (db (step (E_TimerFires io) s))
       = (if io = None then targets (app s) else stored_targets (db s))"
  using stored_targets_written [of io "db s" "app s"]
  by (cases "updatePreferences io (db s)
        \<lparr>last_used_source = None, session_state = Some (snapshot (app s))\<rparr>") simp

subsection \<open>The startup order\<close>

lemma startup_boot: "startup st0 (boot st0)"
  by (simp add: startup_def boot_def initial_app_def)

lemma startup_step: "startup st0 s \<Longrightarrow> enabled e s \<Longrightarrow> startup st0 (step e s)"
  by (cases e)
     (auto simp: startup_def scheduleSave_timer setTargets_timer runLoop_timer_unloaded
         runBatchProcessor_def loadPreferences_def
       split: option.splits prod.splits sum.splits idb_failure.splits if_splits)

lemma startup_exec: "startup st0 s \<Longrightarrow> valid evs s \<Longrightarrow> startup st0 (exec evs s)"
  by (induction evs arbitrary: s) (simp_all add: startup_step)

subsection \<open>Items and identifiers\<close>

lemma ids_markProcessing [simp]: "map id' (markProcessing i ts) = map id' ts"
  by (induction ts) (simp_all add: markProcessing_def)

lemma ids_markCompleted [simp]: "map id' (markCompleted i u ts) = map id' ts"
  by (induction ts) (simp_all add: markCompleted_def)

lemma ids_markFailed [simp]: "map id' (markFailed i m ts) = map id' ts"
  by (induction ts) (simp_all add: markFailed_def)

lemma urls_markProcessing [simp]: "map originalUrl (markProcessing i ts) = map originalUrl ts"
  by (induction ts) (simp_all add: markProcessing_def)

lemma urls_markCompleted [simp]: "map originalUrl (markCompleted i u ts) = map originalUrl ts"
  by (induction ts) (simp_all add: markCompleted_def)

lemma urls_markFailed [simp]: "map originalUrl (markFailed i m ts) = map originalUrl ts"
  by (induction ts) (simp_all add: markFailed_def)

lemma shaped_maps: "shaped ts = (distinct (map id' ts) \<and> [] \<notin> set (map originalUrl ts))"
  unfolding shaped_def by (metis (mono_tags, lifting) image_iff list.set_map)

lemma shaped_same:
  "map id' ts' = map id' ts \<Longrightarrow> map originalUrl ts' = map originalUrl ts
     \<Longrightarrow> shaped ts' = shaped ts"
  by (simp only: shaped_maps)

lemma shaped_filter: "shaped ts \<Longrightarrow> shaped (filter P ts)"
  by (auto simp: shaped_def distinct_map_filter)

lemma shaped_append_new:
  "shaped ts \<Longrightarrow> i \<notin> set (map id' ts) \<Longrightarrow> url \<noteq> [] \<Longrightarrow> shaped (ts @ [newTarget i url])"
  by (auto simp: shaped_def newTarget_def)

lemma same_id_same_item:
  "distinct (map id' ts) \<Longrightarrow> t \<in> set ts \<Longrightarrow> t' \<in> set ts \<Longrightarrow> id' t = id' t' \<Longrightarrow> t = t'"
  by (meson distinct_map inj_onD)


lemma distinct_idleIds: "distinct (map id' ts) \<Longrightarrow> distinct (idleIds ts)"
  by (simp add: idleIds_def distinct_map_filter)

lemma set_idleIds: "set (idleIds ts) \<subseteq> set (map id' ts)"
  by (auto simp: idleIds_def)


subsection \<open>What holds in every state\<close>

lemma timer_ok_setTargets: "timer_ok s \<Longrightarrow> timer_ok (setTargets f s)"
  by (auto simp: timer_ok_def setTargets_def scheduleSave_def)

text \<open>\<open>shape_inv\<close> looks at the targets, the load flag, the identifiers, the store and the timer.\<close>

lemma shape_inv_cong:
  assumes "shape_inv s" and "targets (app s') = targets (app s)"
    and "isStorageLoaded (app s') = isStorageLoaded (app s)"
    and "issued s' = issued s" and "db s' = db s" and "timer_ok s'"
  shows "shape_inv s'"
  using assms by (simp add: shape_inv_def)

lemma shape_inv_setTargets:
  assumes "shape_inv s" and "shaped (f (targets (app s)))"
    and "set (map id' (f (targets (app s)))) \<subseteq> set (issued s)"
    and "\<not> isStorageLoaded (app s) \<Longrightarrow>
           set (map id' (stored_targets (db s))) \<inter> set (map id' (f (targets (app s)))) = {}"
  shows "shape_inv (setTargets f s)"
  using assms timer_ok_setTargets [of s f] by (simp add: shape_inv_def)

lemma shape_inv_same:
  assumes "shape_inv s" and "map id' (f (targets (app s))) = map id' (targets (app s))"
    and "map originalUrl (f (targets (app s))) = map originalUrl (targets (app s))"
  shows "shape_inv (setTargets f s)"
proof (rule shape_inv_setTargets [OF assms(1)])
  show "shaped (f (targets (app s)))"
    using assms shaped_same [of "f (targets (app s))" "targets (app s)"]
    by (simp add: shape_inv_def)
  show "set (map id' (f (targets (app s)))) \<subseteq> set (issued s)"
    using assms(1,2) by (simp add: shape_inv_def)
  show "set (map id' (stored_targets (db s))) \<inter> set (map id' (f (targets (app s)))) = {}"
    if "\<not> isStorageLoaded (app s)"
    using that assms(1,2) by (simp add: shape_inv_def)
qed

lemma shape_inv_flag:
  "shape_inv (s\<lparr>app := (app s)\<lparr>isProcessingBatch := b\<rparr>\<rparr>) = shape_inv s"
  "shape_inv (s\<lparr>app := (app s)\<lparr>settings := x\<rparr>\<rparr>) = shape_inv s"
  "shape_inv (s\<lparr>calls := c\<rparr>) = shape_inv s"
  "shape_inv (s\<lparr>runs := rs\<rparr>) = shape_inv s"
  by (simp_all add: shape_inv_def timer_ok_def)

lemma shape_inv_runLoop: "shape_inv s \<Longrightarrow> shape_inv (fst (runLoop ts0 f0 st0 ids s))"
proof (induction ids arbitrary: s)
  case Nil
  then show ?case by (simp add: shape_inv_flag)
next
  case (Cons i ids)
  have "shape_inv (setTargets (markProcessing i) s)"
    using Cons.prems by (intro shape_inv_same) simp_all
  then show ?case
    using Cons.IH by (simp add: Let_def shape_inv_flag split: option.split)
qed

lemma shape_inv_started: "shape_inv (started p) = shape_inv (fst p)"
  by (simp add: started_def shape_inv_flag split: prod.split option.split)

lemma shape_inv_resumed: "shape_inv (resumed n p) = shape_inv (fst p)"
  by (simp add: resumed_def shape_inv_flag split: prod.split option.split)

lemma shape_inv_session_edit:
  assumes "shape_inv s"
  shows "shape_inv (scheduleSave (s\<lparr>app := (app s)\<lparr>sourceFaces := fs, analysis := an\<rparr>\<rparr>))"
  using assms by (auto simp: shape_inv_def timer_ok_def scheduleSave_def)

lemma shape_inv_step:
  assumes "shape_inv s" and "enabled e s"
  shows "shape_inv (step e s)"
proof (cases e)
  case (E_LoadSettles io)
  let ?s' = "step (E_LoadSettles io) s"
  have u: "\<not> isStorageLoaded (app s)"
    using assms(2) E_LoadSettles by simp
  have "shaped (targets (app ?s')) \<and> set (map id' (targets (app ?s'))) \<subseteq> set (issued s)"
    using load_targets [of io s] assms(1) u by (auto simp: shape_inv_def)
  then have "shape_inv ?s'"
    using assms(1) unfolding shape_inv_def timer_ok_def
    by (simp del: step.simps)
  then show ?thesis using E_LoadSettles by simp
next
  case (E_TimerFires io)
  let ?s' = "step (E_TimerFires io) s"
  obtain snap where "timer s = Some snap" using assms(2) E_TimerFires by auto
  then have t: "timer s = Some (snapshot (app s))" "isStorageLoaded (app s)"
    using assms(1) by (auto simp: shape_inv_def timer_ok_def)
  have "shape_inv ?s'"
    using assms(1) t(2) timer_fires_db [OF t(1), of io]
    unfolding shape_inv_def timer_ok_def
    by (simp del: step.simps)
  then show ?thesis using E_TimerFires by simp
next
  case (E_SourceLoaded base64)
  then show ?thesis
    using assms(1)
      shape_inv_session_edit
        [OF assms(1), where fs = "addImage (sourceFaces (app s)) base64" and an = "analysis (app s)"]
    by simp
next
  case (E_AnalysisSet a)
  then show ?thesis
    using assms(1) shape_inv_session_edit [OF assms(1), where fs = "sourceFaces (app s)" and an = a]
    by simp
next
  case (E_RemoveSource index)
  then show ?thesis using shape_inv_session_edit [OF assms(1)] by simp
next
  case E_ClearSources
  then show ?thesis using shape_inv_session_edit [OF assms(1)] by simp
next
  case (E_TargetLoaded i url)
  let ?s0 = "s\<lparr>issued := issued s @ [i]\<rparr>"
  have fresh: "i \<notin> set (issued s)" "url \<noteq> []"
    using assms(2) E_TargetLoaded by simp_all
  have b0: "shape_inv ?s0"
    using assms(1) by (auto simp: shape_inv_def timer_ok_def)
  have "shape_inv (setTargets (\<lambda>prev. prev @ [newTarget i url]) ?s0)"
  proof (rule shape_inv_setTargets [OF b0])
    have "i \<notin> set (map id' (targets (app s)))"
      using assms(1) fresh(1) by (auto simp: shape_inv_def)
    then show "shaped (targets (app ?s0) @ [newTarget i url])"
      using assms(1) fresh(2) by (simp add: shaped_append_new shape_inv_def)
    show "set (map id' (targets (app ?s0) @ [newTarget i url])) \<subseteq> set (issued ?s0)"
      using assms(1) by (auto simp: shape_inv_def newTarget_def)
    show "set (map id' (stored_targets (db ?s0))) \<inter>
            set (map id' (targets (app ?s0) @ [newTarget i url])) = {}"
      if "\<not> isStorageLoaded (app ?s0)"
      using that assms(1) fresh(1) by (auto simp: shape_inv_def newTarget_def)
  qed
  then show ?thesis using E_TargetLoaded by simp
next
  case (E_RemoveTarget i)
  have "shape_inv (setTargets (filter (\<lambda>p. id' p \<noteq> i)) s)"
    using assms(1) by (intro shape_inv_setTargets) (auto simp: shape_inv_def shaped_filter)
  then show ?thesis using E_RemoveTarget by simp
next
  case (E_EditSettings ed)
  then show ?thesis using assms(1) by (simp add: shape_inv_flag)
next
  case E_RunBatch
  then show ?thesis
    using assms(1)
    by (simp add: runBatchProcessor_def shape_inv_started shape_inv_runLoop shape_inv_flag)
next
  case (E_SwapSettles n outcome)
  then show ?thesis
    using assms(1)
    by (cases outcome) (simp_all add: shape_inv_flag shape_inv_same)
next
  case (E_PauseElapses n)
  then show ?thesis
    using assms(1) by (simp add: shape_inv_resumed shape_inv_runLoop)
qed


lemma shape_inv_boot: "store_shaped st0 \<Longrightarrow> shape_inv (boot st0)"
  by (simp add: shape_inv_def boot_def initial_app_def store_shaped_def shaped_def timer_ok_def)

subsection \<open>What holds while the batches do not overlap\<close>

lemma item_ok_transitions:
  assumes "item_ok t" and "status t = Idle \<or> status t = Processing"
  shows "item_ok (t\<lparr>status := Processing\<rparr>)"
    and "item_ok (t\<lparr>status := Completed, processedUrl := Some u\<rparr>)"
    and "item_ok (t\<lparr>status := Failed, error := Some m\<rparr>)"
  using assms by (auto simp: item_ok_def)

lemma all_ok_mark:
  assumes "\<forall>t\<in>set ts. item_ok t" and "unstarted [i] ts"
  shows "\<forall>t\<in>set (markProcessing i ts). item_ok t"
    and "\<forall>t\<in>set (markCompleted i u ts). item_ok t"
    and "\<forall>t\<in>set (markFailed i m ts). item_ok t"
  using assms item_ok_transitions
  by (fastforce simp: markProcessing_def markCompleted_def markFailed_def unstarted_def)+

lemma unstarted_markProcessing: "unstarted ids ts \<Longrightarrow> unstarted ids (markProcessing i ts)"
  by (auto simp: unstarted_def markProcessing_def)

lemma unstarted_markCompleted:
  "unstarted ids ts \<Longrightarrow> i \<notin> set ids \<Longrightarrow> unstarted ids (markCompleted i u ts)"
  by (auto simp: unstarted_def markCompleted_def)

lemma unstarted_markFailed:
  "unstarted ids ts \<Longrightarrow> i \<notin> set ids \<Longrightarrow> unstarted ids (markFailed i m ts)"
  by (auto simp: unstarted_def markFailed_def)

lemma unstarted_filter: "unstarted ids ts \<Longrightarrow> unstarted ids (filter P ts)"
  by (auto simp: unstarted_def)

lemma unstarted_append_new: "unstarted ids ts \<Longrightarrow> unstarted ids (ts @ [newTarget i u])"
  by (auto simp: unstarted_def newTarget_def)

lemma unstarted_disjoint: "set ids \<inter> id' ` set ts = {} \<Longrightarrow> unstarted ids ts"
  by (auto simp: unstarted_def)

lemma unstarted_idleIds: "distinct (map id' ts) \<Longrightarrow> unstarted (idleIds ts) ts"
  by (auto simp: unstarted_def idleIds_def dest: same_id_same_item)

text \<open>\<open>work_inv\<close> looks at the targets, the load flag, the identifiers and the store.\<close>

lemma work_inv_cong:
  assumes "work_inv ids s" and "targets (app s') = targets (app s)"
    and "isStorageLoaded (app s') = isStorageLoaded (app s)"
    and "issued s' = issued s" and "db s' = db s"
  shows "work_inv ids s'"
  using assms by (simp add: work_inv_def)

lemma work_inv_started [simp]: "work_inv ids (started p) = work_inv ids (fst p)"
  by (simp add: work_inv_def)

lemma work_inv_resumed [simp]: "work_inv ids (resumed n p) = work_inv ids (fst p)"
  by (simp add: work_inv_def)

lemma work_inv_setTargets:
  "work_inv ids s \<Longrightarrow> unstarted ids (f (targets (app s))) \<Longrightarrow> work_inv ids (setTargets f s)"
  by (simp add: work_inv_def)

lemma work_inv_tail: "work_inv (i # ids) s \<Longrightarrow> work_inv ids s \<and> i \<notin> set ids"
  by (auto simp: work_inv_def unstarted_def)

lemma work_inv_head: "work_inv (i # ids) s \<Longrightarrow> unstarted [i] (targets (app s))"
  by (auto simp: work_inv_def unstarted_def)

text \<open>The loop keeps the two equivalences and hands on what it still has to do.\<close>

lemma ok_runLoop:
  assumes "\<forall>t\<in>set (targets (app s)). item_ok t" and "work_inv ids s"
  shows "(\<forall>t\<in>set (targets (app (fst (runLoop ts0 f0 st0 ids s)))). item_ok t)
         \<and> (\<forall>r. snd (runLoop ts0 f0 st0 ids s) = Some r \<longrightarrow>
               work_inv (pending r) (fst (runLoop ts0 f0 st0 ids s)))"
  using assms
proof (induction ids arbitrary: s)
  case Nil
  then show ?case by simp
next
  case (Cons i ids)
  let ?s1 = "setTargets (markProcessing i) s"
  have o1: "\<forall>t\<in>set (targets (app ?s1)). item_ok t"
    using all_ok_mark(1) [OF Cons.prems(1) work_inv_head [OF Cons.prems(2)]] by simp
  have w1: "work_inv (i # ids) ?s1"
    using Cons.prems(2) by (auto intro: work_inv_setTargets unstarted_markProcessing simp: work_inv_def)
  have rec: "(\<forall>t\<in>set (targets (app (fst (runLoop ts0 f0 st0 ids ?s1)))). item_ok t)
         \<and> (\<forall>r. snd (runLoop ts0 f0 st0 ids ?s1) = Some r \<longrightarrow>
               work_inv (pending r) (fst (runLoop ts0 f0 st0 ids ?s1)))"
    using Cons.IH [OF o1] w1 work_inv_tail by blast
  have stop: "work_inv (i # ids) (?s1\<lparr>calls := c\<rparr>)" for c
    using w1 by (rule work_inv_cong) simp_all
  show ?case
    using rec stop o1 by (simp add: Let_def pending_def split: option.split)
qed

text \<open>A step that leaves the list of batches alone.\<close>

lemma ok_inv_keep:
  assumes "ok_inv s" and "runs s' = runs s"
    and "\<forall>t\<in>set (targets (app s')). item_ok t"
    and "\<forall>t\<in>set (stored_targets (db s')). item_ok t"
    and "\<And>ids. work_inv ids s \<Longrightarrow> work_inv ids s'"
  shows "ok_inv s'"
  using assms by (simp add: ok_inv_def)

lemma ok_inv_session_edit:
  assumes "ok_inv s"
  shows "ok_inv (scheduleSave (s\<lparr>app := (app s)\<lparr>sourceFaces := fs, analysis := an\<rparr>\<rparr>))"
  by (rule ok_inv_keep [OF assms]) (use assms in \<open>simp_all add: ok_inv_def work_inv_def\<close>)

lemma ok_inv_one:
  assumes "ok_inv s" and "n < length (runs s)"
  shows "n = 0 \<and> runs s = [runs s ! 0] \<and> work_inv (pending (runs s ! 0)) s"
proof -
  obtain r where "runs s = [r]"
    using assms by (cases "runs s") (auto simp: ok_inv_def)
  then show ?thesis using assms by (simp add: ok_inv_def)
qed

lemma ok_inv_step:
  assumes "shape_inv s" and "ok_inv s" and "enabled e s" and "e = E_RunBatch \<longrightarrow> runs s = []"
  shows "ok_inv (step e s)"
proof -
  have live: "\<forall>t\<in>set (targets (app s)). item_ok t"
    and stored: "\<forall>t\<in>set (stored_targets (db s)). item_ok t"
    using assms(2) by (simp_all add: ok_inv_def)
  show ?thesis
  proof (cases e)
    case (E_LoadSettles io)
    let ?s' = "step (E_LoadSettles io) s"
    have u: "\<not> isStorageLoaded (app s)"
      using assms(3) E_LoadSettles by simp
    have "ok_inv ?s'"
    proof (rule ok_inv_keep [OF assms(2)])
      show "\<forall>t\<in>set (targets (app ?s')). item_ok t"
        using load_targets [of io s] live stored by auto
      show "work_inv ids ?s'" if "work_inv ids s" for ids
      proof -
        have "unstarted ids (targets (app ?s'))"
          using that u load_targets [of io s] unstarted_disjoint [of ids "stored_targets (db s)"]
          by (auto simp: work_inv_def)
        then show ?thesis
          using that unfolding work_inv_def by (simp del: step.simps)
      qed
      show "runs ?s' = runs s" by (simp del: step.simps)
      show "\<forall>t\<in>set (stored_targets (db ?s')). item_ok t"
        using stored by (simp del: step.simps)
    qed
    then show ?thesis using E_LoadSettles by simp
  next
    case (E_TimerFires io)
    let ?s' = "step (E_TimerFires io) s"
    obtain snap where "timer s = Some snap" using assms(3) E_TimerFires by auto
    then have t: "timer s = Some (snapshot (app s))" "isStorageLoaded (app s)"
      using assms(1) by (auto simp: shape_inv_def timer_ok_def)
    have "ok_inv ?s'"
    proof (rule ok_inv_keep [OF assms(2)])
      show "\<forall>t\<in>set (stored_targets (db ?s')). item_ok t"
        using timer_fires_db [OF t(1), of io] live stored by (simp del: step.simps)
      show "work_inv ids ?s'" if "work_inv ids s" for ids
        using that t(2) unfolding work_inv_def by (simp del: step.simps)
      show "runs ?s' = runs s" by (simp del: step.simps)
      show "\<forall>t\<in>set (targets (app ?s')). item_ok t"
        using live by (simp del: step.simps)
    qed
    then show ?thesis using E_TimerFires by simp
  next
    case (E_SourceLoaded base64)
    then show ?thesis
      using assms(2)
        ok_inv_session_edit
          [OF assms(2), where fs = "addImage (sourceFaces (app s)) base64"
            and an = "analysis (app s)"]
      by simp
  next
    case (E_AnalysisSet a)
    then show ?thesis
      using assms(2) ok_inv_session_edit [OF assms(2), where fs = "sourceFaces (app s)" and an = a]
      by simp
  next
    case (E_RemoveSource index)
    then show ?thesis using ok_inv_session_edit [OF assms(2)] by simp
  next
    case E_ClearSources
    then show ?thesis using ok_inv_session_edit [OF assms(2)] by simp
  next
    case (E_TargetLoaded i url)
    let ?s' = "setTargets (\<lambda>prev. prev @ [newTarget i url]) (s\<lparr>issued := issued s @ [i]\<rparr>)"
    have "ok_inv ?s'"
    proof (rule ok_inv_keep [OF assms(2)])
      show "\<forall>t\<in>set (targets (app ?s')). item_ok t"
        using live by (auto simp: newTarget_def item_ok_def)
      show "work_inv ids ?s'" if "work_inv ids s" for ids
        using that unstarted_append_new [of ids "targets (app s)" i url]
        unfolding work_inv_def by auto
    qed (use stored in simp_all)
    then show ?thesis using E_TargetLoaded by simp
  next
    case (E_RemoveTarget i)
    let ?s' = "setTargets (filter (\<lambda>p. id' p \<noteq> i)) s"
    have "ok_inv ?s'"
    proof (rule ok_inv_keep [OF assms(2)])
      show "work_inv ids ?s'" if "work_inv ids s" for ids
        using that unstarted_filter [of ids "targets (app s)"]
        unfolding work_inv_def by auto
    qed (use live stored in simp_all)
    then show ?thesis using E_RemoveTarget by simp
  next
    case (E_EditSettings ed)
    let ?s' = "s\<lparr>app := (app s)\<lparr>settings := applyEdit ed (settings (app s))\<rparr>\<rparr>"
    have "ok_inv ?s'"
      by (rule ok_inv_keep [OF assms(2)]) (use live stored in \<open>simp_all add: work_inv_def\<close>)
    then show ?thesis using E_EditSettings by simp
  next
    case E_RunBatch
    then have none: "runs s = []" using assms(4) by simp
    show ?thesis
    proof (cases "sourceFaces (app s) = []")
      case True
      then show ?thesis using assms(2) E_RunBatch by (simp add: runBatchProcessor_def)
    next
      case False
      let ?s0 = "s\<lparr>app := (app s)\<lparr>isProcessingBatch := True\<rparr>\<rparr>"
      let ?p = "runLoop (targets (app s)) (sourceFaces (app s)) (settings (app s))
                  (idleIds (targets (app s))) ?s0"
      have "work_inv (idleIds (targets (app s))) ?s0"
        using assms(1) set_idleIds [of "targets (app s)"]
        by (auto simp: work_inv_def shape_inv_def shaped_def distinct_idleIds unstarted_idleIds)
      then have l: "(\<forall>t\<in>set (targets (app (fst ?p))). item_ok t)
         \<and> (\<forall>r. snd ?p = Some r \<longrightarrow> work_inv (pending r) (fst ?p))"
        using live by (intro ok_runLoop) simp_all
      have "ok_inv (started ?p)"
        unfolding ok_inv_def runs_started
        using l stored none by (cases "snd ?p") simp_all
      then show ?thesis using False E_RunBatch by (simp add: runBatchProcessor_def)
    qed
  next
    case (E_SwapSettles n outcome)
    let ?r = "runs s ! 0"
    have n: "n = 0" "runs s = [?r]" "br_awaiting ?r = AwaitSwap"
      and wp: "work_inv (pending ?r) s"
      using assms(3) E_SwapSettles ok_inv_one [OF assms(2), of n] by auto
    have w: "work_inv (br_current ?r # br_rest ?r) s"
      using wp n(3) by (simp add: pending_def)
    have h: "unstarted [br_current ?r] (targets (app s))"
      using w by (rule work_inv_head)
    have t: "work_inv (br_rest ?r) s" "br_current ?r \<notin> set (br_rest ?r)"
      using work_inv_tail [OF w] by simp_all
    have fin: "ok_inv ((setTargets f s)\<lparr>runs := [?r\<lparr>br_awaiting := AwaitPause\<rparr>]\<rparr>)"
      if "\<forall>t\<in>set (f (targets (app s))). item_ok t"
        "unstarted (br_rest ?r) (f (targets (app s)))" for f
    proof -
      have "work_inv (br_rest ?r) (setTargets f s)"
        using t(1) that(2) by (rule work_inv_setTargets)
      then have "work_inv (br_rest ?r)
          ((setTargets f s)\<lparr>runs := [?r\<lparr>br_awaiting := AwaitPause\<rparr>]\<rparr>)"
        by (rule work_inv_cong) simp_all
      then show ?thesis
        using that(1) stored by (simp add: ok_inv_def pending_def)
    qed
    have upd: "(runs s)[0 := x] = [x]" for x
      by (subst n(2)) simp
    show ?thesis
    proof (cases outcome)
      case (Inl err)
      have "ok_inv ((setTargets (markFailed (br_current ?r) (errorMessage err)) s)
              \<lparr>runs := [?r\<lparr>br_awaiting := AwaitPause\<rparr>]\<rparr>)"
        using all_ok_mark(3) [OF live h] t by (intro fin) (simp_all add: unstarted_markFailed work_inv_def)
      then show ?thesis
        using E_SwapSettles Inl n(1,3) assms(3) upd by simp
    next
      case (Inr img)
      have "ok_inv ((setTargets (markCompleted (br_current ?r) img) s)
              \<lparr>runs := [?r\<lparr>br_awaiting := AwaitPause\<rparr>]\<rparr>)"
        using all_ok_mark(2) [OF live h] t by (intro fin) (simp_all add: unstarted_markCompleted work_inv_def)
      then show ?thesis
        using E_SwapSettles Inr n(1,3) assms(3) upd by simp
    qed
  next
    case (E_PauseElapses n)
    let ?r = "runs s ! 0"
    have n: "n = 0" "runs s = [?r]" "br_awaiting ?r = AwaitPause"
      and wp: "work_inv (pending ?r) s"
      using assms(3) E_PauseElapses ok_inv_one [OF assms(2), of n] by auto
    let ?p = "runLoop (br_targets ?r) (br_sourceFaces ?r) (br_settings ?r) (br_rest ?r) s"
    have "work_inv (br_rest ?r) s"
      using wp n(3) by (simp add: pending_def)
    then have l: "(\<forall>t\<in>set (targets (app (fst ?p))). item_ok t)
         \<and> (\<forall>r. snd ?p = Some r \<longrightarrow> work_inv (pending r) (fst ?p))"
      using live by (intro ok_runLoop) simp_all
    have rs: "runs (fst ?p) = [?r]"
      using n(2) by simp
    have "ok_inv (resumed 0 ?p)"
      unfolding ok_inv_def runs_resumed rs
      using l stored by (cases "snd ?p") simp_all
    then show ?thesis using E_PauseElapses n(1,3) assms(3) by simp
  qed
qed

lemma sys_inv_exec:
  "shape_inv s \<Longrightarrow> ok_inv s \<Longrightarrow> valid evs s \<Longrightarrow> serial evs s
     \<Longrightarrow> shape_inv (exec evs s) \<and> ok_inv (exec evs s)"
proof (induction evs arbitrary: s)
  case Nil
  then show ?case by simp
next
  case (Cons e evs)
  then show ?case
    using shape_inv_step [of s e] ok_inv_step [of s e] by simp
qed

lemma ok_inv_boot: "store_wf st0 \<Longrightarrow> ok_inv (boot st0)"
  by (simp add: ok_inv_def boot_def initial_app_def store_wf_def)

subsection \<open>Following one batch\<close>


















subsection \<open>The values that a batch passes to the engine\<close>







subsection \<open>A session that only starts\<close>

lemma roundtrip_eq:
  "roundtrip st =
     Some (merge_prefs (case st of Some r \<Rightarrow> r | None \<Rightarrow> empty_prefs)
        \<lparr>last_used_source = None,
         session_state = Some (snapshot (restore st initial_app))\<rparr>)"
  by (simp add: roundtrip_def boot_def loadPreferences_def scheduleSave_def
      updatePreferences_def)

lemma restore_snapshot:
  "restore (Some \<lparr>last_used_source = l, session_state = Some (snapshot a)\<rparr>) initial_app
   = initial_app\<lparr>targets := targets a, sourceFaces := sourceFaces a, analysis := analysis a\<rparr>"
  by (simp add: restore_def snapshot_def split: option.split)

section \<open>The batch pipeline\<close>




text \<open>
  C3 on the code. Two idle targets \<open>a\<close> and \<open>b\<close>, one source image; the batch is started
  and, while the swap of \<open>a\<close> is in flight, the user removes \<open>b\<close>. When the swap of \<open>a\<close>
  settles the live list holds \<open>a\<close> alone. After the pause the loop comes to \<open>b\<close>, finds
  it in the \<^verbatim>\<open>targets\<close> of its closure and calls the engine with the URL of \<open>b\<close>: the
  item is not looked up in the live list and is not skipped.
\<close>

theorem removed_target_is_still_swapped:
  "map id' (targets (app (exec
      [E_LoadSettles None, E_SourceLoaded ''face'', E_TargetLoaded ''a'' ''ua'',
       E_TargetLoaded ''b'' ''ub'', E_RunBatch, E_RemoveTarget ''b'',
       E_SwapSettles 0 (Inr ''img'')] (boot None)))) = [''a'']
   \<and> map sc_target (calls (exec
      [E_LoadSettles None, E_SourceLoaded ''face'', E_TargetLoaded ''a'' ''ua'',
       E_TargetLoaded ''b'' ''ub'', E_RunBatch, E_RemoveTarget ''b'',
       E_SwapSettles 0 (Inr ''img''), E_PauseElapses 0] (boot None))) = [''ua'', ''ub'']
   \<and> valid
      [E_LoadSettles None, E_SourceLoaded ''face'', E_TargetLoaded ''a'' ''ua'',
       E_TargetLoaded ''b'' ''ub'', E_RunBatch, E_RemoveTarget ''b'',
       E_SwapSettles 0 (Inr ''img''), E_PauseElapses 0] (boot None)"
  by (simp add: model_defs)




section \<open>The target items\<close>

text \<open>
  C2, as the code has it. Let the store at the start of the page be well formed, and let
  no click on Run Batch happen while a batch is in progress. In every state that the
  system then reaches (targets created, removed, taken through a batch, the session
  restored and saved, in any order that can happen) every target has a \<^verbatim>\<open>processedUrl\<close>
  exactly when its status is completed and an \<^verbatim>\<open>error\<close> exactly when its status is
  failed; and the store is well formed again, for the next session.
\<close>

theorem status_fields_invariant:
  assumes "store_wf st0" and "valid evs (boot st0)" and "serial evs (boot st0)"
  shows "(\<forall>t\<in>set (targets (app (exec evs (boot st0)))).
            ((processedUrl t \<noteq> None) = (status t = Completed))
            \<and> ((error t \<noteq> None) = (status t = Failed)))
         \<and> store_wf (db (exec evs (boot st0)))"
proof -
  have "store_shaped st0"
    using assms(1) by (simp add: store_wf_def store_shaped_def)
  then have "shape_inv (boot st0)"
    by (rule shape_inv_boot)
  then have "shape_inv (exec evs (boot st0)) \<and> ok_inv (exec evs (boot st0))"
    using ok_inv_boot [OF assms(1)] assms(2,3) by (rule sys_inv_exec)
  then show ?thesis
    by (simp add: shape_inv_def ok_inv_def item_ok_def store_wf_def)
qed

theorem status_fields_invariant_witness:
  "store_wf (Some saved_session) \<and> valid full_session (boot (Some saved_session))
   \<and> serial full_session (boot (Some saved_session))
   \<and> map id' (targets (app (exec full_session (boot (Some saved_session))))) = [''c'']
   \<and> map status (targets (app (exec full_session (boot (Some saved_session))))) = [Failed]
   \<and> map error (targets (app (exec full_session (boot (Some saved_session)))))
      = [Some ''No image generated in response'']
   \<and> list_all (\<lambda>t. ((processedUrl t \<noteq> None) = (status t = Completed))
                    \<and> ((error t \<noteq> None) = (status t = Failed)))
        (targets (app (exec full_session (boot (Some saved_session)))))"
proof -
  have w: "store_wf (Some saved_session)"
    by (simp add: store_wf_def shaped_def item_ok_def saved_session_def stored_targets_def)
  have v: "valid full_session (boot (Some saved_session))"
    by (simp add: full_session_def saved_session_def model_defs)
  have q: "serial full_session (boot (Some saved_session))"
    by (simp add: full_session_def saved_session_def model_defs)
  have e: "map id' (targets (app (exec full_session (boot (Some saved_session))))) = [''c'']"
    "map status (targets (app (exec full_session (boot (Some saved_session))))) = [Failed]"
    "map error (targets (app (exec full_session (boot (Some saved_session)))))
      = [Some ''No image generated in response'']"
    by (simp_all add: full_session_def saved_session_def model_defs)
  have "list_all (\<lambda>t. ((processedUrl t \<noteq> None) = (status t = Completed))
                    \<and> ((error t \<noteq> None) = (status t = Failed)))
        (targets (app (exec full_session (boot (Some saved_session)))))"
    using status_fields_invariant [OF w v q] by (simp add: list_all_iff)
  then show ?thesis using w v q e by blast
qed

text \<open>
  C2 as stated fails, on two batches that overlap. Targets \<open>a\<close> and \<open>b\<close> are idle; a click
  starts a batch over both and a second click, while the swap of \<open>a\<close> is in flight,
  starts a batch over \<open>b\<close>. The second batch completes \<open>b\<close>; the first one then comes to
  \<open>b\<close>, marks it as processing (which keeps the \<^verbatim>\<open>processedUrl\<close>) and fails on it: \<open>b\<close> is
  failed and has both a \<^verbatim>\<open>processedUrl\<close> and an \<^verbatim>\<open>error\<close>. Both clicks come while the
  \<^verbatim>\<open>disabled\<close> expression of the button is false.
\<close>

theorem overlapping_runs_break_status_fields:
  "valid two_batches (boot None) \<and> clickable two_batches (boot None)
   \<and> map id' (targets (app (exec two_batches (boot None)))) = [''a'', ''b'']
   \<and> map status (targets (app (exec two_batches (boot None)))) = [Completed, Failed]
   \<and> map processedUrl (targets (app (exec two_batches (boot None))))
      = [Some ''img1'', Some ''img2'']
   \<and> map error (targets (app (exec two_batches (boot None))))
      = [None, Some ''No image generated in response'']"
  by (simp add: two_batches_def runBatchDisabled_def model_defs)

section \<open>Session persistence\<close>

text \<open>
  C7. In every run of the system, each call of \<^verbatim>\<open>updatePreferences\<close> comes after the
  settling of \<^verbatim>\<open>loadPreferences\<close> in the storage log; and as long as \<^verbatim>\<open>isStorageLoaded\<close> is
  false the store holds what it held when the page was opened, and no write is pending.
\<close>

theorem no_write_before_restore:
  assumes "valid evs (boot st0)"
  shows "(\<forall>i<length (storage_log (exec evs (boot st0))).
            storage_log (exec evs (boot st0)) ! i = UpdateCalled \<longrightarrow>
            (\<exists>j<i. storage_log (exec evs (boot st0)) ! j = LoadSettled))
         \<and> (\<not> isStorageLoaded (app (exec evs (boot st0))) \<longrightarrow>
              db (exec evs (boot st0)) = st0 \<and> timer (exec evs (boot st0)) = None)"
proof -
  have s: "startup st0 (exec evs (boot st0))"
    using assms startup_boot startup_exec by blast
  have "\<exists>j<i. storage_log (exec evs (boot st0)) ! j = LoadSettled"
    if "i < length (storage_log (exec evs (boot st0)))"
      and "storage_log (exec evs (boot st0)) ! i = UpdateCalled" for i
    using that s by (cases i) (auto simp: startup_def split: if_splits)
  then show ?thesis
    using s by (auto simp: startup_def)
qed

theorem no_write_before_restore_witness:
  "valid [E_TargetLoaded ''a'' ''ua'', E_LoadSettles None, E_TimerFires None]
     (boot (Some legacy_record))
   \<and> storage_log (exec [E_TargetLoaded ''a'' ''ua'', E_LoadSettles None, E_TimerFires None]
        (boot (Some legacy_record))) = [LoadSettled, UpdateCalled]
   \<and> valid [E_TargetLoaded ''a'' ''ua''] (boot (Some legacy_record))
   \<and> \<not> isStorageLoaded (app (exec [E_TargetLoaded ''a'' ''ua''] (boot (Some legacy_record))))
   \<and> db (exec [E_TargetLoaded ''a'' ''ua''] (boot (Some legacy_record))) = Some legacy_record"
proof -
  have v: "valid [E_TargetLoaded ''a'' ''ua'', E_LoadSettles None, E_TimerFires None]
     (boot (Some legacy_record))"
    by (simp add: legacy_record_def model_defs)
  have w: "valid [E_TargetLoaded ''a'' ''ua''] (boot (Some legacy_record))"
    by (simp add: legacy_record_def model_defs)
  have l: "storage_log (exec [E_TargetLoaded ''a'' ''ua'', E_LoadSettles None, E_TimerFires None]
        (boot (Some legacy_record))) = [LoadSettled, UpdateCalled]"
    using no_write_before_restore [OF v] by (simp add: legacy_record_def model_defs)
  have u: "\<not> isStorageLoaded (app (exec [E_TargetLoaded ''a'' ''ua''] (boot (Some legacy_record))))"
    by (simp add: model_defs)
  show ?thesis
    using v w l u no_write_before_restore [OF w] by blast
qed

text \<open>
  C6, as the code has it. A session that only starts and saves is idempotent on the store:
  run on its own result it changes nothing. It leaves a record unchanged when the record
  has a \<^verbatim>\<open>session_state\<close> of the current shape: \<^verbatim>\<open>targets\<close> and \<^verbatim>\<open>sourceFaces\<close> present,
  no legacy \<^verbatim>\<open>sourceFace\<close>, and the \<^verbatim>\<open>analysis\<close> key present.
\<close>

theorem session_roundtrip:
  "roundtrip (roundtrip st) = roundtrip st
   \<and> (session_state r = Some ss \<and> ss_targets ss \<noteq> None \<and> ss_sourceFaces ss \<noteq> None
        \<and> ss_sourceFace ss = None \<and> ss_analysis ss \<noteq> Absent
      \<longrightarrow> roundtrip (Some r) = Some r)"
proof
  show "roundtrip (roundtrip st) = roundtrip st"
    by (simp add: roundtrip_eq [of st] roundtrip_eq [of "Some x" for x] merge_prefs_def
        restore_snapshot) (simp add: snapshot_def initial_app_def)
  show "session_state r = Some ss \<and> ss_targets ss \<noteq> None \<and> ss_sourceFaces ss \<noteq> None
        \<and> ss_sourceFace ss = None \<and> ss_analysis ss \<noteq> Absent
      \<longrightarrow> roundtrip (Some r) = Some r"
    by (cases "ss_analysis ss")
       (auto simp: roundtrip_eq merge_prefs_def restore_def snapshot_def initial_app_def)
qed

theorem session_roundtrip_witness:
  "roundtrip (roundtrip (Some legacy_record)) = roundtrip (Some legacy_record)
   \<and> roundtrip
        (Some \<lparr>last_used_source = None,
               session_state =
                 Some \<lparr>ss_targets = Some [newTarget ''a'' ''ua''], ss_sourceFace = None,
                       ss_sourceFaces = Some [''face''], ss_analysis = Undefined\<rparr>\<rparr>)
      = Some \<lparr>last_used_source = None,
               session_state =
                 Some \<lparr>ss_targets = Some [newTarget ''a'' ''ua''], ss_sourceFace = None,
                       ss_sourceFaces = Some [''face''], ss_analysis = Undefined\<rparr>\<rparr>"
  using session_roundtrip [of "Some legacy_record"]
    session_roundtrip
      [of _ "\<lparr>last_used_source = None,
               session_state =
                 Some \<lparr>ss_targets = Some [newTarget ''a'' ''ua''], ss_sourceFace = None,
                       ss_sourceFaces = Some [''face''], ss_analysis = Undefined\<rparr>\<rparr>"
          "\<lparr>ss_targets = Some [newTarget ''a'' ''ua''], ss_sourceFace = None,
                       ss_sourceFaces = Some [''face''], ss_analysis = Undefined\<rparr>"]
  by simp

text \<open>
  C6 as stated fails. For the legacy record (a bookmark and no session) the restore falls
  back to the bookmark, and the save adds a \<^verbatim>\<open>session_state\<close> to the record.
\<close>

theorem roundtrip_changes_legacy_record:
  "roundtrip (Some legacy_record) =
     Some (legacy_record\<lparr>session_state :=
        Some \<lparr>ss_targets = Some [], ss_sourceFace = None, ss_sourceFaces = Some [''face''],
              ss_analysis = Undefined\<rparr>\<rparr>)
   \<and> roundtrip (Some legacy_record) \<noteq> Some legacy_record"
  by (simp add: roundtrip_def legacy_record_def model_defs)

text \<open>
  C8 on the code. The load has settled and the auto-save timeout fires; the write fails
  (the \<^verbatim>\<open>put\<close> request, or \<^verbatim>\<open>openDB\<close>). \<^verbatim>\<open>updatePreferences\<close> rejects with the failure:
  of the \<^verbatim>\<open>put\<close> request without a log entry, of \<^verbatim>\<open>openDB\<close> after logging it and throwing
  it again. The auto-save effect has no handler for the rejection, which is left
  unhandled: the error is not swallowed. The store and the state of the application are
  as before the write. A failed read, for comparison, is caught by \<^verbatim>\<open>loadPreferences\<close>
  and leaves no rejection.
\<close>

theorem write_failure_propagates:
  "updatePreferences (Some PutFails) None
      \<lparr>last_used_source = None, session_state = Some (snapshot initial_app)\<rparr>
     = (Inl PutFails, None, [])
   \<and> updatePreferences (Some OpenFails) None
      \<lparr>last_used_source = None, session_state = Some (snapshot initial_app)\<rparr>
     = (Inl OpenFails, None, [''IndexedDB Update Error:''])
   \<and> valid [E_LoadSettles None, E_TimerFires (Some PutFails)] (boot None)
   \<and> unhandled (exec [E_LoadSettles None, E_TimerFires (Some PutFails)] (boot None))
     = [PutFails]
   \<and> console (exec [E_LoadSettles None, E_TimerFires (Some PutFails)] (boot None)) = []
   \<and> unhandled (exec [E_LoadSettles None, E_TimerFires (Some OpenFails)] (boot None))
     = [OpenFails]
   \<and> console (exec [E_LoadSettles None, E_TimerFires (Some OpenFails)] (boot None))
     = [''IndexedDB Update Error:'']
   \<and> app (exec [E_LoadSettles None, E_TimerFires (Some OpenFails)] (boot None))
     = app (exec [E_LoadSettles None] (boot None))
   \<and> db (exec [E_LoadSettles None, E_TimerFires (Some OpenFails)] (boot None)) = None
   \<and> unhandled (exec [E_LoadSettles (Some OpenFails)] (boot None)) = []
   \<and> console (exec [E_LoadSettles (Some OpenFails)] (boot None)) = [''IndexedDB Load Error:'']"
  by (simp add: model_defs)

section \<open>The storage merge\<close>

text \<open>
  C5. Whatever the store holds, \<^verbatim>\<open>updatePreferences({last_used_source: X})\<close> followed by
  \<^verbatim>\<open>updatePreferences({session_state: Y})\<close> (both calls succeeding) leaves one record
  under the key, holding \<open>X\<close> as \<^verbatim>\<open>last_used_source\<close> and \<open>Y\<close> as \<^verbatim>\<open>session_state\<close>: the
  second write merges into the record of the first.
\<close>

theorem updatePreferences_keeps_both:
  "updatePreferences None
     (fst (snd (updatePreferences None db0 \<lparr>last_used_source = Some X, session_state = None\<rparr>)))
     \<lparr>last_used_source = None, session_state = Some Y\<rparr>
   = (Inr (), Some \<lparr>last_used_source = Some X, session_state = Some Y\<rparr>, [])"
  by (simp add: updatePreferences_def merge_prefs_def)

text \<open>
  C10. The merge is at the top level only. For every stored record and every partial
  update, a successful \<^verbatim>\<open>updatePreferences\<close> stores a record in which each key of the
  update has the update's value as a whole, and each key that the update does not have
  keeps the stored value. Nothing of a replaced \<^verbatim>\<open>session_state\<close> survives: the witness
  replaces a session that has a target by one without the \<^verbatim>\<open>targets\<close> key.
\<close>

theorem updatePreferences_top_level:
  "\<exists>r. updatePreferences None (Some stored) upd = (Inr (), Some r, [])
     \<and> (\<forall>v. session_state upd = Some v \<longrightarrow> session_state r = Some v)
     \<and> (session_state upd = None \<longrightarrow> session_state r = session_state stored)
     \<and> (\<forall>v. last_used_source upd = Some v \<longrightarrow> last_used_source r = Some v)
     \<and> (last_used_source upd = None \<longrightarrow> last_used_source r = last_used_source stored)"
  by (simp add: updatePreferences_def merge_prefs_def)

theorem updatePreferences_top_level_witness:
  "\<exists>r. updatePreferences None
          (Some \<lparr>last_used_source =
                   Some \<lparr>lus_image = Some ''face'', lus_images = None, lus_analysis = None,
                         lus_timestamp = 7\<rparr>,
                 session_state =
                   Some \<lparr>ss_targets = Some [newTarget ''a'' ''ua''], ss_sourceFace = None,
                         ss_sourceFaces = Some [''face''], ss_analysis = Undefined\<rparr>\<rparr>)
          \<lparr>last_used_source = None,
           session_state =
             Some \<lparr>ss_targets = None, ss_sourceFace = None, ss_sourceFaces = Some [],
                   ss_analysis = Undefined\<rparr>\<rparr>
        = (Inr (), Some r, [])
     \<and> session_state r =
         Some \<lparr>ss_targets = None, ss_sourceFace = None, ss_sourceFaces = Some [],
               ss_analysis = Undefined\<rparr>
     \<and> last_used_source r =
         Some \<lparr>lus_image = Some ''face'', lus_images = None, lus_analysis = None,
               lus_timestamp = 7\<rparr>"
  using updatePreferences_top_level
    [of "\<lparr>last_used_source =
            Some \<lparr>lus_image = Some ''face'', lus_images = None, lus_analysis = None,
                  lus_timestamp = 7\<rparr>,
          session_state =
            Some \<lparr>ss_targets = Some [newTarget ''a'' ''ua''], ss_sourceFace = None,
                  ss_sourceFaces = Some [''face''], ss_analysis = Undefined\<rparr>\<rparr>"
        "\<lparr>last_used_source = None,
          session_state =
            Some \<lparr>ss_targets = None, ss_sourceFace = None, ss_sourceFaces = Some [],
                  ss_analysis = Undefined\<rparr>\<rparr>"]
  by simp

section \<open>The source identity sequence\<close>

text \<open>
  C9. An insert leaves the sequence as it is when the image is already in it or when it
  holds three images (or more); otherwise the image is appended at the end. Hence a
  sequence of at most three images stays so, and a sequence without duplicates stays so.
  The updater returns a list in every case: nothing is raised.
\<close>

theorem addImage_appends_unless_duplicate_or_full:
  "(base64 \<in> set prev \<or> 3 \<le> length prev \<longrightarrow> addImage prev base64 = prev)
   \<and> (base64 \<notin> set prev \<and> length prev < 3 \<longrightarrow> addImage prev base64 = prev @ [base64])
   \<and> (length prev \<le> 3 \<longrightarrow> length (addImage prev base64) \<le> 3)
   \<and> (distinct prev \<longrightarrow> distinct (addImage prev base64))"
  by (auto simp: addImage_def)

theorem addImage_appends_unless_duplicate_or_full_witness:
  "addImage [''a'', ''b'', ''c''] ''d'' = [''a'', ''b'', ''c'']
   \<and> addImage [''a'', ''b''] ''b'' = [''a'', ''b'']
   \<and> addImage [''a'', ''b''] ''c'' = [''a'', ''b'', ''c'']
   \<and> length (addImage [''a'', ''b''] ''c'') \<le> 3
   \<and> distinct (addImage [''a'', ''b''] ''c'')"
  using addImage_appends_unless_duplicate_or_full [of "''d''" "[''a'', ''b'', ''c'']"]
    addImage_appends_unless_duplicate_or_full [of "''b''" "[''a'', ''b'']"]
    addImage_appends_unless_duplicate_or_full [of "''c''" "[''a'', ''b'']"]
  by simp

end
